theory Spec2Isabelle
  imports Main "HOL-Library.Product_Lexorder" "HOL-Library.Sublist"
begin

section \<open>Data model of \<^verbatim>\<open>CNER.py\<close>\<close>

text \<open>
  A Python \<^verbatim>\<open>str\<close> is a sequence of Unicode code points, so a character is a natural
  number and a string a list of them; \<open>ascii\<close> writes the literals of the source.
\<close>

type_synonym ustr = "nat list"

definition ascii :: "string \<Rightarrow> ustr" where
  "ascii s = map of_char s"

text \<open>
  The automaton of \<^verbatim>\<open>ACAutomaton\<close> is a graph of nested Python dicts that are mutated in
  place and shared through the \<^verbatim>\<open>'fail'\<close> entries. A dict is an insertion-ordered list of
  (key, value) pairs; a value is a reference to another dict or a string (only the
  end-of-word entry \<^verbatim>\<open>node['#'] = '#'\<close> stores one). The store maps addresses to dicts;
  \<^verbatim>\<open>self.root\<close> is the dict at address 0 and a fresh \<^verbatim>\<open>{}\<close> takes the next free address.
\<close>

datatype error = AttributeError | TypeError | KeyError | IndexError

datatype val = Ref nat | Str ustr

type_synonym dict = "(ustr \<times> val) list"

type_synonym heap = "dict list"

definition end_of_word :: ustr where
  "end_of_word = ascii ''#''"

definition fail_key :: ustr where
  "fail_key = ascii ''fail''"

definition root :: val where
  "root = Ref 0"

text \<open>\<^verbatim>\<open>ACAutomaton.__init__\<close>: the root is the empty dict.\<close>

definition init_heap :: heap where
  "init_heap = [[]]"

subsection \<open>Dict and string primitives\<close>

text \<open>\<^verbatim>\<open>d[k] = v\<close> on a dict: an existing key keeps its position, a new key goes last.\<close>

fun dict_set :: "dict \<Rightarrow> ustr \<Rightarrow> val \<Rightarrow> dict" where
  "dict_set [] k v = [(k, v)]"
| "dict_set ((k', v') # d) k v = (if k' = k then (k, v) # d else (k', v') # dict_set d k v)"

text \<open>\<^verbatim>\<open>k in s\<close> on a string is the substring test.\<close>

definition str_contains :: "ustr \<Rightarrow> ustr \<Rightarrow> bool" where
  "str_contains s k = list_ex (\<lambda>i. take (length k) (drop i s) = k) [0..<Suc (length s)]"

text \<open>\<^verbatim>\<open>k in node\<close>: key membership on a dict, substring test on a string.\<close>

fun contains :: "heap \<Rightarrow> val \<Rightarrow> ustr \<Rightarrow> bool" where
  "contains h (Ref a) k = (map_of (h ! a) k \<noteq> None)"
| "contains h (Str s) k = str_contains s k"

text \<open>\<^verbatim>\<open>node[k]\<close> with a string key: \<^verbatim>\<open>KeyError\<close> on a dict without the key, \<^verbatim>\<open>TypeError\<close> on a
  string (string indices must be integers).\<close>

fun getitem :: "heap \<Rightarrow> val \<Rightarrow> ustr \<Rightarrow> error + val" where
  "getitem h (Ref a) k = (case map_of (h ! a) k of None \<Rightarrow> Inl KeyError | Some v \<Rightarrow> Inr v)"
| "getitem h (Str s) k = Inl TypeError"

text \<open>\<^verbatim>\<open>node[k] = v\<close>: \<^verbatim>\<open>TypeError\<close> on a string (no item assignment).\<close>

fun setitem :: "heap \<Rightarrow> val \<Rightarrow> ustr \<Rightarrow> val \<Rightarrow> error + heap" where
  "setitem h (Ref a) k v = Inr (h[a := dict_set (h ! a) k v])"
| "setitem h (Str s) k v = Inl TypeError"

text \<open>\<^verbatim>\<open>node.get('fail', self.root)\<close>: \<^verbatim>\<open>AttributeError\<close> on a string (it has no \<^verbatim>\<open>get\<close>).\<close>

fun get_fail :: "heap \<Rightarrow> val \<Rightarrow> error + val" where
  "get_fail h (Ref a) = (case map_of (h ! a) fail_key of None \<Rightarrow> Inr root | Some v \<Rightarrow> Inr v)"
| "get_fail h (Str s) = Inl AttributeError"

text \<open>
  \<^verbatim>\<open>node != self.root\<close>. Python compares dicts by content, not by identity. In every
  store that \<^verbatim>\<open>add_word\<close> and \<^verbatim>\<open>build_fail\<close> produce a dict other than the root never has
  the root's content (the dicts under the root form a finite tree, so a node's subtree is
  smaller than the root's, and the root never gets a \<^verbatim>\<open>'fail'\<close> entry), so the comparison
  is modelled as the comparison of addresses. A string differs from every dict.
\<close>

fun not_root :: "val \<Rightarrow> bool" where
  "not_root (Ref a) = (a \<noteq> 0)"
| "not_root (Str s) = True"

text \<open>\<^verbatim>\<open>for key in node\<close>: the keys of a dict in insertion order, the characters of a string.\<close>

fun keys :: "heap \<Rightarrow> val \<Rightarrow> ustr list" where
  "keys h (Ref a) = map fst (h ! a)"
| "keys h (Str s) = map (\<lambda>c. [c]) s"

text \<open>\<^verbatim>\<open>text[a:b]\<close> with Python's clamping; a negative index counts from the end.\<close>

definition py_slice :: "'a list \<Rightarrow> int \<Rightarrow> int \<Rightarrow> 'a list" where
  "py_slice xs a b =
     (let n = int (length xs);
          a' = (if a < 0 then max (a + n) 0 else min a n);
          b' = (if b < 0 then max (b + n) 0 else min b n)
      in drop (nat a') (take (nat b') xs))"

section \<open>\<^verbatim>\<open>ACAutomaton\<close>\<close>

subsection \<open>\<^verbatim>\<open>add_word\<close>\<close>

text \<open>
  The loop \<^verbatim>\<open>node = node.setdefault(char, {})\<close> returns the entry of \<^verbatim>\<open>char\<close> when there is
  one and stores a fresh empty dict otherwise; on a string it raises \<^verbatim>\<open>AttributeError\<close>.
\<close>

fun setdefault_walk :: "heap \<Rightarrow> val \<Rightarrow> ustr \<Rightarrow> error + heap \<times> val" where
  "setdefault_walk h node [] = Inr (h, node)"
| "setdefault_walk h (Str s) (c # cs) = Inl AttributeError"
| "setdefault_walk h (Ref a) (c # cs) =
     (case map_of (h ! a) [c] of
        Some v \<Rightarrow> setdefault_walk h v cs
      | None \<Rightarrow> setdefault_walk ((h[a := h ! a @ [([c], Ref (length h))]]) @ [[]])
                  (Ref (length h)) cs)"

definition add_word :: "heap \<Rightarrow> ustr \<Rightarrow> error + heap" where
  "add_word h word =
     (case setdefault_walk h root word of
        Inl e \<Rightarrow> Inl e
      | Inr (h', node) \<Rightarrow> setitem h' node end_of_word (Str end_of_word))"

subsection \<open>Failure-chain loops\<close>

text \<open>
  The loops that follow \<^verbatim>\<open>'fail'\<close> entries need not end on an arbitrary store (the entries
  may form a cycle), so they are partial functions: \<open>None\<close> is a run that never returns,
  \<open>Some (Inl e)\<close> a raised exception, \<open>Some (Inr x)\<close> a returned value.

  \<open>fail_walk\<close> is the loop
  \<^verbatim>\<open>while node != self.root and key not in node: node = node.get('fail', self.root)\<close>
  of \<^verbatim>\<open>build_fail\<close> (lines 44-45) and of \<^verbatim>\<open>search\<close> (lines 61-62).
\<close>

partial_function (option) fail_walk :: "heap \<Rightarrow> val \<Rightarrow> ustr \<Rightarrow> (error + val) option" where
  "fail_walk h node k =
     (if not_root node \<and> \<not> contains h node k
      then (case get_fail h node of Inl e \<Rightarrow> Some (Inl e) | Inr node' \<Rightarrow> fail_walk h node' k)
      else Some (Inr node))"

text \<open>\<^verbatim>\<open>_get_word_length\<close>, with the counter \<^verbatim>\<open>length\<close> as an argument (initially 0).\<close>

partial_function (option) get_word_length_loop ::
  "heap \<Rightarrow> val \<Rightarrow> nat \<Rightarrow> (error + nat) option" where
  "get_word_length_loop h node len =
     (if not_root node \<and> \<not> contains h node end_of_word
      then (case get_fail h node of
              Inl e \<Rightarrow> Some (Inl e)
            | Inr node' \<Rightarrow> get_word_length_loop h node' (len + 1))
      else Some (Inr len))"

declare fail_walk.simps [code]

declare get_word_length_loop.simps [code]

definition get_word_length :: "heap \<Rightarrow> val \<Rightarrow> (error + nat) option" where
  "get_word_length h node = get_word_length_loop h node 0"

subsection \<open>\<^verbatim>\<open>build_fail\<close>\<close>

text \<open>The first loop: every entry of the root but \<^verbatim>\<open>'#'\<close> gets \<^verbatim>\<open>'fail'\<close> = root and is queued.\<close>

fun root_children :: "heap \<Rightarrow> ustr list \<Rightarrow> val list \<Rightarrow> error + heap \<times> val list" where
  "root_children h [] queue = Inr (h, queue)"
| "root_children h (key # ks) queue =
     (if key \<noteq> end_of_word
      then (case getitem h root key of
              Inl e \<Rightarrow> Inl e
            | Inr child \<Rightarrow>
                (case setitem h child fail_key root of
                   Inl e \<Rightarrow> Inl e
                 | Inr h' \<Rightarrow> root_children h' ks (queue @ [child])))
      else root_children h ks queue)"

text \<open>The body of the breadth-first loop: \<^verbatim>\<open>for key in current_node\<close>.\<close>

fun node_children ::
  "heap \<Rightarrow> val \<Rightarrow> ustr list \<Rightarrow> val list \<Rightarrow> (error + heap \<times> val list) option" where
  "node_children h current_node [] queue = Some (Inr (h, queue))"
| "node_children h current_node (key # ks) queue =
     (if key = end_of_word \<or> key = fail_key then node_children h current_node ks queue
      else
        (case getitem h current_node key of
           Inl e \<Rightarrow> Some (Inl e)
         | Inr child_node \<Rightarrow>
        (case getitem h current_node fail_key of
           Inl e \<Rightarrow> Some (Inl e)
         | Inr fail_node0 \<Rightarrow>
        (case fail_walk h fail_node0 key of
           None \<Rightarrow> None
         | Some (Inl e) \<Rightarrow> Some (Inl e)
         | Some (Inr fail_node) \<Rightarrow>
        (case (if contains h fail_node key then getitem h fail_node key else Inr root) of
           Inl e \<Rightarrow> Some (Inl e)
         | Inr target \<Rightarrow>
        (case setitem h child_node fail_key target of
           Inl e \<Rightarrow> Some (Inl e)
         | Inr h' \<Rightarrow> node_children h' current_node ks (queue @ [child_node])))))))"

text \<open>\<^verbatim>\<open>while queue: current_node = queue.pop(0); ...\<close>\<close>

partial_function (option) bfs :: "heap \<Rightarrow> val list \<Rightarrow> (error + heap) option" where
  "bfs h queue =
     (case queue of
        [] \<Rightarrow> Some (Inr h)
      | current_node # rest \<Rightarrow>
          (case node_children h current_node (keys h current_node) rest of
             None \<Rightarrow> None
           | Some (Inl e) \<Rightarrow> Some (Inl e)
           | Some (Inr (h', queue')) \<Rightarrow> bfs h' queue'))"

declare bfs.simps [code]

definition build_fail :: "heap \<Rightarrow> (error + heap) option" where
  "build_fail h =
     (case root_children h (keys h root) [] of
        Inl e \<Rightarrow> Some (Inl e)
      | Inr (h', queue) \<Rightarrow> bfs h' queue)"

subsection \<open>\<^verbatim>\<open>search\<close>\<close>

type_synonym match = "int \<times> int \<times> ustr"

text \<open>The loop \<^verbatim>\<open>while temp != self.root\<close> that reports the words ending at position \<open>i\<close>.\<close>

partial_function (option) report ::
  "heap \<Rightarrow> ustr \<Rightarrow> nat \<Rightarrow> val \<Rightarrow> match list \<Rightarrow> (error + match list) option" where
  "report h text i temp results =
     (if not_root temp
      then
        (case (if contains h temp end_of_word
               then (case get_word_length h temp of
                       None \<Rightarrow> None
                     | Some (Inl e) \<Rightarrow> Some (Inl e)
                     | Some (Inr word_length) \<Rightarrow>
                         (let start_pos = int i - int word_length + 1
                          in Some (Inr (results @
                               [(start_pos, int i + 1, py_slice text start_pos (int i + 1))]))))
               else Some (Inr results)) of
           None \<Rightarrow> None
         | Some (Inl e) \<Rightarrow> Some (Inl e)
         | Some (Inr results') \<Rightarrow>
             (case get_fail h temp of
                Inl e \<Rightarrow> Some (Inl e)
              | Inr temp' \<Rightarrow> report h text i temp' results'))
      else Some (Inr results))"

declare report.simps [code]

text \<open>\<^verbatim>\<open>for i, char in enumerate(text)\<close>; \<open>cs\<close> is the rest of the text from position \<open>i\<close>.\<close>

fun search_loop ::
  "heap \<Rightarrow> ustr \<Rightarrow> nat \<Rightarrow> ustr \<Rightarrow> val \<Rightarrow> match list \<Rightarrow> (error + match list) option" where
  "search_loop h text i [] current_node results = Some (Inr results)"
| "search_loop h text i (c # cs) current_node results =
     (case fail_walk h current_node [c] of
        None \<Rightarrow> None
      | Some (Inl e) \<Rightarrow> Some (Inl e)
      | Some (Inr node) \<Rightarrow>
          (if contains h node [c]
           then (case getitem h node [c] of
                   Inl e \<Rightarrow> Some (Inl e)
                 | Inr node' \<Rightarrow>
                     (case report h text i node' results of
                        None \<Rightarrow> None
                      | Some (Inl e) \<Rightarrow> Some (Inl e)
                      | Some (Inr results') \<Rightarrow> search_loop h text (i + 1) cs node' results'))
           else search_loop h text (i + 1) cs node results))"

definition search :: "heap \<Rightarrow> ustr \<Rightarrow> (error + match list) option" where
  "search h text = search_loop h text 0 text root []"

section \<open>\<^verbatim>\<open>ChineseNER\<close>\<close>

text \<open>
  The recognizer holds the automaton and \<^verbatim>\<open>entity_type_mapping\<close>. The three dictionaries are
  Python sets read from files; \<^verbatim>\<open>build_ac_automaton\<close> iterates over each, so the model takes
  them as lists, in the order of the iteration.
\<close>

record ner =
  ac_automaton :: heap
  entity_type_mapping :: "ustr \<rightharpoonup> ustr"

fun add_entities :: "ner \<Rightarrow> ustr \<Rightarrow> ustr list \<Rightarrow> error + ner" where
  "add_entities s label [] = Inr s"
| "add_entities s label (entity # es) =
     (case add_word (ac_automaton s) entity of
        Inl e \<Rightarrow> Inl e
      | Inr h' \<Rightarrow>
          add_entities \<lparr>ac_automaton = h',
                        entity_type_mapping = (entity_type_mapping s)(entity \<mapsto> label)\<rparr>
            label es)"

definition build_ac_automaton ::
  "ustr list \<Rightarrow> ustr list \<Rightarrow> ustr list \<Rightarrow> (error + ner) option" where
  "build_ac_automaton loc_entities per_entities org_entities =
     (case add_entities \<lparr>ac_automaton = init_heap, entity_type_mapping = Map.empty\<rparr>
             (ascii ''LOC'') loc_entities of
        Inl e \<Rightarrow> Some (Inl e)
      | Inr s1 \<Rightarrow>
     (case add_entities s1 (ascii ''PER'') per_entities of
        Inl e \<Rightarrow> Some (Inl e)
      | Inr s2 \<Rightarrow>
     (case add_entities s2 (ascii ''ORG'') org_entities of
        Inl e \<Rightarrow> Some (Inl e)
      | Inr s3 \<Rightarrow>
     (case build_fail (ac_automaton s3) of
        None \<Rightarrow> None
      | Some (Inl e) \<Rightarrow> Some (Inl e)
      | Some (Inr h') \<Rightarrow> Some (Inr (s3\<lparr>ac_automaton := h'\<rparr>))))))"

record entity =
  etext :: ustr
  estart :: int
  eend :: int
  etype :: ustr

text \<open>The sort key \<^verbatim>\<open>(x[0], -(x[1]-x[0]))\<close>; Python's sort is stable, as \<open>sort_key\<close> is.\<close>

definition match_key :: "match \<Rightarrow> int \<times> int" where
  "match_key x = (fst x, - (fst (snd x) - fst x))"

text \<open>The sweep \<^verbatim>\<open>for start, end, entity_text in matches\<close> with \<^verbatim>\<open>last_end\<close> as an argument.\<close>

fun sweep :: "(ustr \<rightharpoonup> ustr) \<Rightarrow> int \<Rightarrow> match list \<Rightarrow> entity list" where
  "sweep m last_end [] = []"
| "sweep m last_end ((start, end, entity_text) # ms) =
     (if start \<ge> last_end
      then \<lparr>etext = entity_text, estart = start, eend = end,
            etype = (case m entity_text of None \<Rightarrow> ascii ''UNK'' | Some t \<Rightarrow> t)\<rparr>
           # sweep m end ms
      else sweep m last_end ms)"

definition recognize_entities :: "ner \<Rightarrow> ustr \<Rightarrow> (error + entity list) option" where
  "recognize_entities s text =
     (case search (ac_automaton s) text of
        None \<Rightarrow> None
      | Some (Inl e) \<Rightarrow> Some (Inl e)
      | Some (Inr matches) \<Rightarrow>
          Some (Inr (sweep (entity_type_mapping s) (- 1) (sort_key match_key matches))))"

text \<open>\<^verbatim>\<open>ChineseNER(entity_dict_dir).recognize_entities(text)\<close>: construction, then recognition.\<close>

definition ner_recognize ::
  "ustr list \<Rightarrow> ustr list \<Rightarrow> ustr list \<Rightarrow> ustr \<Rightarrow> (error + entity list) option" where
  "ner_recognize loc_entities per_entities org_entities text =
     (case build_ac_automaton loc_entities per_entities org_entities of
        None \<Rightarrow> None
      | Some (Inl e) \<Rightarrow> Some (Inl e)
      | Some (Inr s) \<Rightarrow> recognize_entities s text)"

subsection \<open>\<^verbatim>\<open>text_to_bio\<close>\<close>

text \<open>\<^verbatim>\<open>xs[i] = v\<close> on a list: a negative index counts from the end, \<^verbatim>\<open>IndexError\<close> out of range.\<close>

definition py_setitem :: "'a list \<Rightarrow> int \<Rightarrow> 'a \<Rightarrow> error + 'a list" where
  "py_setitem xs i v =
     (let n = int (length xs); j = (if i < 0 then i + n else i)
      in if 0 \<le> j \<and> j < n then Inr (xs[nat j := v]) else Inl IndexError)"

text \<open>\<^verbatim>\<open>for i in range(start + 1, min(end, len(bio_tags))): bio_tags[i] = f'I-{entity_type}'\<close>\<close>

fun mark_inside :: "ustr list \<Rightarrow> int list \<Rightarrow> ustr \<Rightarrow> error + ustr list" where
  "mark_inside bio_tags [] entity_type = Inr bio_tags"
| "mark_inside bio_tags (i # is) entity_type =
     (case py_setitem bio_tags i (ascii ''I-'' @ entity_type) of
        Inl e \<Rightarrow> Inl e
      | Inr bio_tags' \<Rightarrow> mark_inside bio_tags' is entity_type)"

text \<open>\<^verbatim>\<open>for entity in entities\<close>\<close>

fun mark_entities :: "ustr list \<Rightarrow> entity list \<Rightarrow> error + ustr list" where
  "mark_entities bio_tags [] = Inr bio_tags"
| "mark_entities bio_tags (entity # es) =
     (let start = estart entity; end = eend entity; entity_type = etype entity
      in case (if start < int (length bio_tags)
               then py_setitem bio_tags start (ascii ''B-'' @ entity_type)
               else Inr bio_tags) of
           Inl e \<Rightarrow> Inl e
         | Inr bio_tags1 \<Rightarrow>
             (case mark_inside bio_tags1 [start + 1..min end (int (length bio_tags1)) - 1]
                     entity_type of
                Inl e \<Rightarrow> Inl e
              | Inr bio_tags2 \<Rightarrow> mark_entities bio_tags2 es))"

text \<open>Each output line is \<^verbatim>\<open>f"{token} {tag}"\<close>.\<close>

definition text_to_bio :: "ustr \<Rightarrow> entity list \<Rightarrow> error + ustr list" where
  "text_to_bio text entities =
     (case mark_entities (replicate (length text) (ascii ''O'')) entities of
        Inl e \<Rightarrow> Inl e
      | Inr bio_tags \<Rightarrow>
          Inr (map (\<lambda>(token, tag). [token] @ ascii '' '' @ tag) (zip text bio_tags)))"


text \<open>
  The automaton that \<^verbatim>\<open>build_ac_automaton\<close> makes of the patterns \<^verbatim>\<open>AB\<close> and \<^verbatim>\<open>ABC\<close>, and a
  recognizer state around it.
\<close>

definition abc_automaton :: heap where
  "abc_automaton =
     [[(ascii ''A'', Ref 1)],
      [(ascii ''B'', Ref 2), (fail_key, Ref 0)],
      [(end_of_word, Str end_of_word), (ascii ''C'', Ref 3), (fail_key, Ref 0)],
      [(end_of_word, Str end_of_word), (fail_key, Ref 0)]]"

definition abc_ner :: ner where
  "abc_ner = \<lparr>ac_automaton = abc_automaton,
              entity_type_mapping = [ascii ''AB'' \<mapsto> ascii ''LOC'', ascii ''ABC'' \<mapsto> ascii ''PER'']\<rparr>"

text \<open>Entities, in list order, whose spans are pairwise disjoint.\<close>

fun spans_disjoint :: "entity list \<Rightarrow> bool" where
  "spans_disjoint [] = True"
| "spans_disjoint (e # es) =
     ((\<forall>e'\<in>set es. eend e \<le> estart e' \<or> eend e' \<le> estart e) \<and> spans_disjoint es)"

section \<open>The store as a trie\<close>







text \<open>
  Two stores that differ at most in the end-of-word entry of the root dict: the other dicts
  are the same, the root dicts agree on every key but \<^verbatim>\<open>#\<close>, and their other keys come in the
  same order.
\<close>

definition root_frame :: "heap \<Rightarrow> heap \<Rightarrow> bool" where
  "root_frame h1 h2 =
     (length h1 = length h2 \<and> (\<forall>a. a \<noteq> 0 \<longrightarrow> h1 ! a = h2 ! a) \<and>
      (\<forall>k. k \<noteq> end_of_word \<longrightarrow> map_of (h1 ! 0) k = map_of (h2 ! 0) k) \<and>
      filter (\<lambda>k. k \<noteq> end_of_word) (map fst (h1 ! 0)) =
        filter (\<lambda>k. k \<noteq> end_of_word) (map fst (h2 ! 0)))"


section \<open>What \<^verbatim>\<open>search\<close> reports\<close>

text \<open>
  \<^verbatim>\<open>_get_word_length\<close> is only called on a node that holds the end-of-word key, and its loop
  stops at once on such a node: the length is always 0. So every match that \<^verbatim>\<open>search\<close>
  reports at position \<open>i\<close> is \<open>(i + 1, i + 1, '')\<close>, whatever the automaton.
\<close>

lemma gwl_terminal: "contains h node end_of_word \<Longrightarrow> get_word_length h node = Some (Inr 0)"
  by (simp add: get_word_length_def get_word_length_loop.simps)

lemma py_slice_empty: "py_slice xs a a = []"
  by (simp add: py_slice_def Let_def)

lemma report_shape_aux:
  assumes "report h T i temp rs = Some y"
  shows "\<forall>rs'. y = Inr rs' \<longrightarrow> (\<exists>n. rs' = rs @ replicate n (int i + 1, int i + 1, []))"
  using assms
proof (induction h T i temp rs y rule: report.raw_induct[rotated 1, consumes 1, case_names step])
  case (step rep h tx i temp rs y)
  show ?case
  proof (intro allI impI)
    fix rs' assume y: "y = Inr rs'"
    show "\<exists>n. rs' = rs @ replicate n (int i + 1, int i + 1, [])"
    proof (cases "not_root temp")
      case False
      with step(2) y have "rs' = rs" by simp
      then show ?thesis by (intro exI[of _ 0]) simp
    next
      case nr: True
      show ?thesis
      proof (cases "contains h temp end_of_word")
        case True
        from step(2) nr True y obtain temp' where
          "rep h tx i temp' (rs @ [(int i + 1, int i + 1, [])]) = Some (Inr rs')"
          by (auto simp: gwl_terminal py_slice_empty Let_def split: sum.splits)
        from step(1)[OF this] obtain n where
          "rs' = (rs @ [(int i + 1, int i + 1, [])]) @ replicate n (int i + 1, int i + 1, [])"
          by blast
        then have "rs' = rs @ replicate (Suc n) (int i + 1, int i + 1, [])" by simp
        then show ?thesis by blast
      next
        case False
        from step(2) nr False y obtain temp' where
          "rep h tx i temp' rs = Some (Inr rs')"
          by (auto split: sum.splits)
        from step(1)[OF this] show ?thesis by blast
      qed
    qed
  qed
qed

lemma report_shape:
  "report h text i temp rs = Some (Inr rs') \<Longrightarrow>
   \<exists>n. rs' = rs @ replicate n (int i + 1, int i + 1, [])"
  using report_shape_aux by blast

lemma search_loop_shape:
  "search_loop h text i cs cur rs = Some (Inr rs') \<Longrightarrow>
   \<exists>ms. rs' = rs @ ms \<and> (\<forall>m\<in>set ms. \<exists>j. i \<le> j \<and> j < i + length cs \<and> m = (int j + 1, int j + 1, []))"
proof (induction cs arbitrary: i cur rs)
  case Nil
  then show ?case by simp
next
  case (Cons c cs)
  from Cons.prems obtain node where fw: "fail_walk h cur [c] = Some (Inr node)"
    by (auto split: option.splits sum.splits)
  show ?case
  proof (cases "contains h node [c]")
    case True
    with Cons.prems fw obtain node' rs1 where
      r: "report h text i node' rs = Some (Inr rs1)" and
      s: "search_loop h text (i + 1) cs node' rs1 = Some (Inr rs')"
      by (auto split: option.splits sum.splits)
    from report_shape[OF r] obtain n where n: "rs1 = rs @ replicate n (int i + 1, int i + 1, [])" by blast
    from Cons.IH[OF s] obtain ms where ms: "rs' = rs1 @ ms"
      "\<forall>m\<in>set ms. \<exists>j. i + 1 \<le> j \<and> j < i + 1 + length cs \<and> m = (int j + 1, int j + 1, [])" by blast
    have "rs' = rs @ (replicate n (int i + 1, int i + 1, []) @ ms)" using n ms by simp
    moreover have "\<forall>m\<in>set (replicate n (int i + 1, int i + 1, []) @ ms). \<exists>j. i \<le> j \<and> j < i + length (c # cs) \<and> m = (int j + 1, int j + 1, [])"
      using ms(2) by (auto intro: exI[of _ i]) 
    ultimately show ?thesis by blast
  next
    case False
    with Cons.prems fw have s: "search_loop h text (i + 1) cs node rs = Some (Inr rs')"
      by auto
    from Cons.IH[OF s] obtain ms where ms: "rs' = rs @ ms"
      "\<forall>m\<in>set ms. \<exists>j. i + 1 \<le> j \<and> j < i + 1 + length cs \<and> m = (int j + 1, int j + 1, [])" by blast
    have "\<forall>m\<in>set ms. \<exists>j. i \<le> j \<and> j < i + length (c # cs) \<and> m = (int j + 1, int j + 1, [])"
      using ms(2) by fastforce
    with ms(1) show ?thesis by blast
  qed
qed

lemma search_shape:
  "search h text = Some (Inr ms) \<Longrightarrow>
   \<forall>m\<in>set ms. \<exists>j<length text. m = (int j + 1, int j + 1, [])"
  using search_loop_shape[of h _ 0 _ root "[]" ms] by (fastforce simp: search_def)

section \<open>The sweep of \<^verbatim>\<open>recognize_entities\<close>\<close>




lemma sweep_label:
  "e \<in> set (sweep m l ms) \<Longrightarrow>
   etype e = (case m (etext e) of None \<Rightarrow> ascii ''UNK'' | Some t \<Rightarrow> t)"
  by (induction m l ms rule: sweep.induct) (auto split: if_splits)



lemma abc_search:
  "search (ac_automaton abc_ner) (ascii ''ABCD'') = Some (Inr [(2, 2, []), (3, 3, [])])"
  by code_simp

lemma abc_build:
  "(case build_ac_automaton [ascii ''AB''] [ascii ''ABC''] [] of
      Some (Inr s) \<Rightarrow>
        Some (ac_automaton s, map (entity_type_mapping s) [ascii ''AB'', ascii ''ABC'', []])
    | _ \<Rightarrow> None) =
   Some (ac_automaton abc_ner, map (entity_type_mapping abc_ner) [ascii ''AB'', ascii ''ABC'', []])"
  by code_simp

section \<open>\<^verbatim>\<open>text_to_bio\<close> on disjoint spans\<close>

lemma py_setitem_in_range:
  "0 \<le> i \<Longrightarrow> i < int (length xs) \<Longrightarrow> py_setitem xs i v = Inr (xs[nat i := v])"
  by (simp add: py_setitem_def Let_def)

lemma mark_inside_nth:
  "\<forall>i\<in>set js. 0 \<le> i \<and> i < int (length tags) \<Longrightarrow>
   \<exists>r. mark_inside tags js t = Inr r \<and> length r = length tags \<and>
       (\<forall>p<length tags. r ! p = (if int p \<in> set js then ascii ''I-'' @ t else tags ! p))"
proof (induction js arbitrary: tags)
  case Nil
  then show ?case by simp
next
  case (Cons i js)
  let ?tags' = "tags[nat i := ascii ''I-'' @ t]"
  from Cons.prems have i: "0 \<le> i" "i < int (length tags)" by auto
  have "\<forall>j\<in>set js. 0 \<le> j \<and> j < int (length ?tags')" using Cons.prems by auto
  from Cons.IH[OF this] obtain r where r: "mark_inside ?tags' js t = Inr r"
    "length r = length tags"
    "\<forall>p<length tags. r ! p = (if int p \<in> set js then ascii ''I-'' @ t else ?tags' ! p)"
    by auto
  have "mark_inside tags (i # js) t = Inr r"
    using r(1) i by (simp add: py_setitem_in_range)
  moreover have "\<forall>p<length tags. r ! p = (if int p \<in> set (i # js) then ascii ''I-'' @ t else tags ! p)"
  proof (intro allI impI)
    fix p assume p: "p < length tags"
    show "r ! p = (if int p \<in> set (i # js) then ascii ''I-'' @ t else tags ! p)"
    proof (cases "int p = i")
      case True
      then have "nat i = p" by simp
      with r(3) p True show ?thesis by auto
    next
      case False
      then have "nat i \<noteq> p" using i by auto
      with r(3) p False show ?thesis by auto
    qed
  qed
  ultimately show ?case using r(2) by blast
qed

lemma mark_one:
  assumes "0 \<le> estart e" "estart e < eend e" "eend e \<le> int (length tags)"
  shows "\<exists>r. mark_entities tags (e # es) = mark_entities r es \<and> length r = length tags \<and>
       (\<forall>p<length tags. r ! p =
          (if int p = estart e then ascii ''B-'' @ etype e
           else if estart e < int p \<and> int p < eend e then ascii ''I-'' @ etype e
           else tags ! p))"
proof -
  let ?t1 = "tags[nat (estart e) := ascii ''B-'' @ etype e]"
  let ?js = "[estart e + 1..min (eend e) (int (length ?t1)) - 1]"
  have s: "estart e < int (length tags)" using assms by linarith
  have "\<forall>i\<in>set ?js. 0 \<le> i \<and> i < int (length ?t1)" using assms by auto
  from mark_inside_nth[OF this, of "etype e"] obtain r where
    r: "mark_inside ?t1 ?js (etype e) = Inr r" "length r = length ?t1"
    "\<forall>p<length ?t1. r ! p = (if int p \<in> set ?js then ascii ''I-'' @ etype e else ?t1 ! p)"
    by blast
  have "mark_entities tags (e # es) = mark_entities r es"
    using r(1) s assms(1) by (simp add: Let_def py_setitem_in_range)
  moreover have "\<forall>p<length tags. r ! p =
          (if int p = estart e then ascii ''B-'' @ etype e
           else if estart e < int p \<and> int p < eend e then ascii ''I-'' @ etype e
           else tags ! p)"
  proof (intro allI impI)
    fix p assume p: "p < length tags"
    have in_js: "int p \<in> set ?js \<longleftrightarrow> estart e < int p \<and> int p < eend e"
      using p assms by auto
    show "r ! p = (if int p = estart e then ascii ''B-'' @ etype e
           else if estart e < int p \<and> int p < eend e then ascii ''I-'' @ etype e
           else tags ! p)"
    proof (cases "int p = estart e")
      case True
      then have "nat (estart e) = p" by simp
      with r(3) p in_js True show ?thesis by auto
    next
      case False
      then have "nat (estart e) \<noteq> p" using assms(1) by auto
      with r(3) p in_js False show ?thesis by auto
    qed
  qed
  ultimately show ?thesis using r(2) by auto
qed

lemma mark_entities_nth:
  assumes "\<forall>e\<in>set es. 0 \<le> estart e \<and> estart e < eend e \<and> eend e \<le> int (length tags)"
    and "spans_disjoint es"
  shows "\<exists>r. mark_entities tags es = Inr r \<and> length r = length tags \<and>
     (\<forall>p<length tags.
        (\<forall>e\<in>set es. int p = estart e \<longrightarrow> r ! p = ascii ''B-'' @ etype e) \<and>
        (\<forall>e\<in>set es. estart e < int p \<and> int p < eend e \<longrightarrow> r ! p = ascii ''I-'' @ etype e) \<and>
        ((\<forall>e\<in>set es. \<not> (estart e \<le> int p \<and> int p < eend e)) \<longrightarrow> r ! p = tags ! p))"
  using assms
proof (induction es arbitrary: tags)
  case Nil
  then show ?case by simp
next
  case (Cons e es)
  from Cons.prems(1) have e: "0 \<le> estart e" "estart e < eend e" "eend e \<le> int (length tags)"
    by auto
  from mark_one[OF e, of es] obtain t1 where t1:
    "mark_entities tags (e # es) = mark_entities t1 es" "length t1 = length tags"
    "\<forall>p<length tags. t1 ! p =
          (if int p = estart e then ascii ''B-'' @ etype e
           else if estart e < int p \<and> int p < eend e then ascii ''I-'' @ etype e
           else tags ! p)" by blast
  have rng: "\<forall>e\<in>set es. 0 \<le> estart e \<and> estart e < eend e \<and> eend e \<le> int (length t1)"
    using Cons.prems(1) t1(2) by auto
  have dj: "spans_disjoint es" and dje: "\<forall>e'\<in>set es. eend e \<le> estart e' \<or> eend e' \<le> estart e"
    using Cons.prems(2) by auto
  from Cons.IH[OF rng dj] obtain r where r:
    "mark_entities t1 es = Inr r" "length r = length t1"
    "\<forall>p<length t1.
        (\<forall>e\<in>set es. int p = estart e \<longrightarrow> r ! p = ascii ''B-'' @ etype e) \<and>
        (\<forall>e\<in>set es. estart e < int p \<and> int p < eend e \<longrightarrow> r ! p = ascii ''I-'' @ etype e) \<and>
        ((\<forall>e\<in>set es. \<not> (estart e \<le> int p \<and> int p < eend e)) \<longrightarrow> r ! p = t1 ! p)" by blast
  have "\<forall>p<length tags.
        (\<forall>x\<in>set (e # es). int p = estart x \<longrightarrow> r ! p = ascii ''B-'' @ etype x) \<and>
        (\<forall>x\<in>set (e # es). estart x < int p \<and> int p < eend x \<longrightarrow> r ! p = ascii ''I-'' @ etype x) \<and>
        ((\<forall>x\<in>set (e # es). \<not> (estart x \<le> int p \<and> int p < eend x)) \<longrightarrow> r ! p = tags ! p)"
  proof (intro allI impI)
    fix p assume p: "p < length tags"
    then have p1: "p < length t1" using t1(2) by simp
    note rp = r(3)[rule_format, OF p1]
    note tp = t1(3)[rule_format, OF p]
    have free: "estart e \<le> int p \<and> int p < eend e \<Longrightarrow>
        \<forall>x\<in>set es. \<not> (estart x \<le> int p \<and> int p < eend x)"
      using dje rng by fastforce
    show "(\<forall>x\<in>set (e # es). int p = estart x \<longrightarrow> r ! p = ascii ''B-'' @ etype x) \<and>
        (\<forall>x\<in>set (e # es). estart x < int p \<and> int p < eend x \<longrightarrow> r ! p = ascii ''I-'' @ etype x) \<and>
        ((\<forall>x\<in>set (e # es). \<not> (estart x \<le> int p \<and> int p < eend x)) \<longrightarrow> r ! p = tags ! p)"
    proof (intro conjI ballI impI)
      fix x assume x: "x \<in> set (e # es)" and px: "int p = estart x"
      show "r ! p = ascii ''B-'' @ etype x"
      proof (cases "x \<in> set es")
        case True
        with rp px show ?thesis by blast
      next
        case False
        with x have xe: "x = e" by simp
        with px e have "estart e \<le> int p \<and> int p < eend e" by simp
        from free[OF this] rp have "r ! p = t1 ! p" by blast
        with tp px xe show ?thesis by simp
      qed
    next
      fix x assume x: "x \<in> set (e # es)" and px: "estart x < int p \<and> int p < eend x"
      show "r ! p = ascii ''I-'' @ etype x"
      proof (cases "x \<in> set es")
        case True
        with rp px show ?thesis by blast
      next
        case False
        with x have xe: "x = e" by simp
        with px have "estart e \<le> int p \<and> int p < eend e" by simp
        from free[OF this] rp have "r ! p = t1 ! p" by blast
        with tp px xe show ?thesis by simp
      qed
    next
      assume none: "\<forall>x\<in>set (e # es). \<not> (estart x \<le> int p \<and> int p < eend x)"
      then have "r ! p = t1 ! p" using rp by simp
      moreover have "t1 ! p = tags ! p" using tp none e(2) by auto
      ultimately show "r ! p = tags ! p" by simp
    qed
  qed
  with t1(1,2) r(1,2) show ?case by auto
qed

section \<open>Well-formed stores\<close>

lemma eow: "end_of_word = [35]" by (simp add: end_of_word_def ascii_def)

lemma fk: "fail_key = [102, 97, 105, 108]" by (simp add: fail_key_def ascii_def)

lemma key_neq [simp]: "[c] \<noteq> fail_key" "fail_key \<noteq> [c]" "end_of_word \<noteq> fail_key"
  "fail_key \<noteq> end_of_word"
  by (simp_all add: eow fk)





















section \<open>\<^verbatim>\<open>search\<close> before \<^verbatim>\<open>build_fail\<close>\<close>




section \<open>The end-of-word mark on the root\<close>

text \<open>
  No loop of \<^verbatim>\<open>add_word\<close>, \<^verbatim>\<open>build_fail\<close> or \<^verbatim>\<open>search\<close> reads the entry \<^verbatim>\<open>#\<close> of the root unless a
  word or the text has the character \<^verbatim>\<open>#\<close>: the loops stop at the root before they test it.
\<close>

lemma rf_sym: "root_frame h1 h2 \<Longrightarrow> root_frame h2 h1"
  by (simp add: root_frame_def)

lemma rf_refl: "root_frame h h"
  by (simp add: root_frame_def)





























lemma rel_sum_rf_sym: "rel_sum (=) root_frame x y \<Longrightarrow> rel_sum (=) root_frame y x"
  by (cases x; cases y) (auto intro: rf_sym)




section \<open>Claims\<close>

text \<open>
  C1. Every entity returned by \<^verbatim>\<open>recognize_entities\<close> has a text that is one of the patterns and
  the label registered for that pattern. The code does not do this: with the single pattern
  \<^verbatim>\<open>AB\<close> (label \<^verbatim>\<open>LOC\<close>) and the text \<^verbatim>\<open>AB\<close> the only entity is the empty string at
  \<open>(2, 2)\<close> with the label \<^verbatim>\<open>UNK\<close>, because \<^verbatim>\<open>_get_word_length\<close> returns 0.
\<close>

theorem recognize_entity_not_a_pattern:
  "ner_recognize [ascii ''AB''] [] [] (ascii ''AB'') =
     Some (Inr [\<lparr>etext = [], estart = 2, eend = 2, etype = ascii ''UNK''\<rparr>])"
  by code_simp

text \<open>
  C2. Patterns \<^verbatim>\<open>AB\<close> (label \<^verbatim>\<open>LOC\<close>) and \<^verbatim>\<open>ABC\<close> (label \<^verbatim>\<open>PER\<close>) over the text \<^verbatim>\<open>ABCD\<close> should
  yield the one entity \<open>(ABC, 0, 3, PER)\<close>. The code returns two entities, both the empty
  string with the label \<^verbatim>\<open>UNK\<close>, at \<open>(2, 2)\<close> and \<open>(3, 3)\<close>.
\<close>

theorem longest_match_first_fails:
  "ner_recognize [ascii ''AB''] [ascii ''ABC''] [] (ascii ''ABCD'') =
     Some (Inr [\<lparr>etext = [], estart = 2, eend = 2, etype = ascii ''UNK''\<rparr>,
                \<lparr>etext = [], estart = 3, eend = 3, etype = ascii ''UNK''\<rparr>])"
  by code_simp




text \<open>
  C4, as stated: a matched text without an entry in \<^verbatim>\<open>entity_type_mapping\<close> is reported as an
  error. It is not: for the pattern \<^verbatim>\<open>AB\<close> and the text \<^verbatim>\<open>AB\<close> the matched text is the empty
  string, the mapping has no entry for it, and the entity is returned with the label
  \<^verbatim>\<open>UNK\<close>.
\<close>

theorem recognize_unknown_label_counterexample:
  "(case build_ac_automaton [ascii ''AB''] [] [] of
      Some (Inr s) \<Rightarrow> Some (entity_type_mapping s [], recognize_entities s (ascii ''AB''))
    | _ \<Rightarrow> None) =
   Some (None, Some (Inr [\<lparr>etext = [], estart = 2, eend = 2, etype = ascii ''UNK''\<rparr>]))"
  by code_simp

text \<open>
  C4, amended: \<^verbatim>\<open>recognize_entities\<close> raises no error for a matched text without an entry in
  the mapping. Whenever \<^verbatim>\<open>search\<close> returns its matches, \<^verbatim>\<open>recognize_entities\<close> returns a list of
  entities, and each of them carries the label that the mapping has for its text, or the
  default label \<^verbatim>\<open>UNK\<close> when the mapping has none.
\<close>

theorem recognize_label_default:
  assumes "search (ac_automaton s) text = Some (Inr ms)"
  shows "\<exists>es. recognize_entities s text = Some (Inr es) \<and>
     (\<forall>e\<in>set es. etype e =
        (case entity_type_mapping s (etext e) of None \<Rightarrow> ascii ''UNK'' | Some t \<Rightarrow> t))"
  using assms by (auto simp: recognize_entities_def dest: sweep_label)

theorem recognize_label_default_witness:
  "search (ac_automaton abc_ner) (ascii ''ABCD'') = Some (Inr [(2, 2, []), (3, 3, [])]) \<and>
   entity_type_mapping abc_ner [] = None \<and>
   recognize_entities abc_ner (ascii ''ABCD'') =
     Some (Inr [\<lparr>etext = [], estart = 2, eend = 2, etype = ascii ''UNK''\<rparr>,
                \<lparr>etext = [], estart = 3, eend = 3, etype = ascii ''UNK''\<rparr>])"
proof -
  from recognize_label_default[OF abc_search] obtain es where
    es: "recognize_entities abc_ner (ascii ''ABCD'') = Some (Inr es)" and
    lab: "\<forall>e\<in>set es. etype e =
        (case entity_type_mapping abc_ner (etext e) of None \<Rightarrow> ascii ''UNK'' | Some t \<Rightarrow> t)"
    by blast
  have none: "entity_type_mapping abc_ner [] = None"
    by (simp add: abc_ner_def ascii_def)
  have sw: "es = sweep (entity_type_mapping abc_ner) (- 1) (sort_key match_key [(2, 2, []), (3, 3, [])])"
    using es abc_search by (simp add: recognize_entities_def)
  have shape: "map (\<lambda>e. (etext e, estart e, eend e)) es = [([], 2, 2), ([], 3, 3)]"
    unfolding sw by (simp add: match_key_def)
  then obtain e1 e2 where e12: "es = [e1, e2]" "etext e1 = []" "estart e1 = 2" "eend e1 = 2"
     "etext e2 = []" "estart e2 = 3" "eend e2 = 3"
    by auto
  from lab e12 none have "etype e1 = ascii ''UNK''" "etype e2 = ascii ''UNK''" by auto
  with e12 have "es = [\<lparr>etext = [], estart = 2, eend = 2, etype = ascii ''UNK''\<rparr>,
                \<lparr>etext = [], estart = 3, eend = 3, etype = ascii ''UNK''\<rparr>]"
    by simp
  with es none abc_search show ?thesis by simp
qed




text \<open>
  C10. A pattern with the character \<^verbatim>\<open>#\<close> breaks the automaton, because the end-of-word mark
  shares the dict with the edges. After \<^verbatim>\<open>add_word('a#b')\<close> and \<^verbatim>\<open>build_fail\<close> the node of the
  prefix \<^verbatim>\<open>a\<close> (address 1) holds the key \<^verbatim>\<open>#\<close>, the nodes below that edge (addresses 2 and 3)
  have no \<^verbatim>\<open>'fail'\<close> entry, and \<^verbatim>\<open>search('a')\<close> reports a match whose text is no pattern.
\<close>

theorem hash_in_pattern:
  "(case add_word init_heap (ascii ''a#b'') of
      Inl e \<Rightarrow> None
    | Inr h0 \<Rightarrow>
        (case build_fail h0 of
           Some (Inr h) \<Rightarrow>
             Some (h, contains h (Ref 1) end_of_word, search h (ascii ''a''))
         | _ \<Rightarrow> None)) =
   Some ([[(ascii ''a'', Ref 1)],
          [(ascii ''#'', Ref 2), (ascii ''fail'', Ref 0)],
          [(ascii ''b'', Ref 3)],
          [(ascii ''#'', Str (ascii ''#''))]],
         True, Some (Inr [(1, 1, [])])) \<and>
   [] \<noteq> ascii ''a#b''"
  by code_simp

text \<open>
  C7. For a text and entities with pairwise disjoint, non-empty spans inside the text,
  \<^verbatim>\<open>text_to_bio\<close> returns one line per character: the character, a space and the tag. The
  tag is \<^verbatim>\<open>B-\<close> with the label at an entity's start, \<^verbatim>\<open>I-\<close> with the label at the positions
  after the start and before the end, and \<^verbatim>\<open>O\<close> at a position that no entity covers.
\<close>

theorem text_to_bio_tags:
  assumes "\<forall>e\<in>set es. 0 \<le> estart e \<and> estart e < eend e \<and> eend e \<le> int (length text)"
    and "spans_disjoint es"
  shows "\<exists>r. text_to_bio text es = Inr r \<and> length r = length text \<and>
     (\<forall>p<length text.
        (\<forall>e\<in>set es. int p = estart e \<longrightarrow>
            r ! p = [text ! p] @ ascii '' '' @ ascii ''B-'' @ etype e) \<and>
        (\<forall>e\<in>set es. estart e < int p \<and> int p < eend e \<longrightarrow>
            r ! p = [text ! p] @ ascii '' '' @ ascii ''I-'' @ etype e) \<and>
        ((\<forall>e\<in>set es. \<not> (estart e \<le> int p \<and> int p < eend e)) \<longrightarrow>
            r ! p = [text ! p] @ ascii '' '' @ ascii ''O''))"
proof -
  let ?tags = "replicate (length text) (ascii ''O'')"
  have rng: "\<forall>e\<in>set es. 0 \<le> estart e \<and> estart e < eend e \<and> eend e \<le> int (length ?tags)"
    using assms(1) by simp
  from mark_entities_nth[OF rng assms(2)] obtain r where r:
    "mark_entities ?tags es = Inr r" "length r = length text"
    "\<forall>p<length text.
        (\<forall>e\<in>set es. int p = estart e \<longrightarrow> r ! p = ascii ''B-'' @ etype e) \<and>
        (\<forall>e\<in>set es. estart e < int p \<and> int p < eend e \<longrightarrow> r ! p = ascii ''I-'' @ etype e) \<and>
        ((\<forall>e\<in>set es. \<not> (estart e \<le> int p \<and> int p < eend e)) \<longrightarrow> r ! p = ascii ''O'')"
    by auto
  let ?out = "map (\<lambda>(token, tag). [token] @ ascii '' '' @ tag) (zip text r)"
  have out: "text_to_bio text es = Inr ?out" using r(1) by (simp add: text_to_bio_def)
  have nth: "\<And>p. p < length text \<Longrightarrow> ?out ! p = [text ! p] @ ascii '' '' @ r ! p"
    using r(2) by simp
  show ?thesis
    apply (rule exI[of _ ?out])
    using out r(2) r(3) nth by simp
qed

theorem text_to_bio_tags_witness:
  "\<exists>r. text_to_bio (ascii ''abcd'')
         [\<lparr>etext = ascii ''bc'', estart = 1, eend = 3, etype = ascii ''LOC''\<rparr>] = Inr r \<and>
       length r = 4 \<and> r ! 0 = ascii ''a O'' \<and> r ! 1 = ascii ''b B-LOC'' \<and>
       r ! 2 = ascii ''c I-LOC'' \<and> r ! 3 = ascii ''d O''"
proof -
  let ?e = "\<lparr>etext = ascii ''bc'', estart = 1, eend = 3, etype = ascii ''LOC''\<rparr>"
  have h1: "\<forall>e\<in>set [?e]. 0 \<le> estart e \<and> estart e < eend e \<and>
              eend e \<le> int (length (ascii ''abcd''))"
    by (simp add: ascii_def)
  have h2: "spans_disjoint [?e]" by simp
  from text_to_bio_tags[OF h1 h2] obtain r where
    r: "text_to_bio (ascii ''abcd'') [?e] = Inr r" "length r = length (ascii ''abcd'')" and
    tags: "\<forall>p<length (ascii ''abcd'').
        (\<forall>e\<in>set [?e]. int p = estart e \<longrightarrow>
            r ! p = [ascii ''abcd'' ! p] @ ascii '' '' @ ascii ''B-'' @ etype e) \<and>
        (\<forall>e\<in>set [?e]. estart e < int p \<and> int p < eend e \<longrightarrow>
            r ! p = [ascii ''abcd'' ! p] @ ascii '' '' @ ascii ''I-'' @ etype e) \<and>
        ((\<forall>e\<in>set [?e]. \<not> (estart e \<le> int p \<and> int p < eend e)) \<longrightarrow>
            r ! p = [ascii ''abcd'' ! p] @ ascii '' '' @ ascii ''O'')"
    by blast
  have "r ! 0 = ascii ''a O''" using tags[rule_format, of 0] by (simp add: ascii_def)
  moreover have "r ! 1 = ascii ''b B-LOC''" using tags[rule_format, of 1] by (simp add: ascii_def)
  moreover have "r ! 2 = ascii ''c I-LOC''" using tags[rule_format, of 2] by (simp add: ascii_def)
  moreover have "r ! 3 = ascii ''d O''" using tags[rule_format, of 3] by (simp add: ascii_def)
  moreover have "length r = 4" using r(2) by (simp add: ascii_def)
  ultimately show ?thesis using r(1) by blast
qed




end
